theory Spec2Isabelle
  imports Main "HOL-Library.AList" "HOL-Library.Multiset"
begin

section \<open>Record model (models.py)\<close>

text \<open>
  The vote codes of \<^verbatim>\<open>class Vote(IntEnum)\<close>; \<open>vote_int\<close> is Python's \<^verbatim>\<open>int(vote)\<close>.
\<close>

datatype Vote = Missing | AyeTeller | Aye | Both | No | NoTeller

fun vote_int :: "Vote \<Rightarrow> int" where
  "vote_int Missing = -9"
| "vote_int AyeTeller = 1"
| "vote_int Aye = 2"
| "vote_int Both = 3"
| "vote_int No = 4"
| "vote_int NoTeller = 5"

text \<open>
  A Python \<^verbatim>\<open>datetime\<close>: the calendar date as its proleptic Gregorian ordinal
  (\<^verbatim>\<open>toordinal()\<close>), the time of day in microseconds since midnight, and the UTC
  offset in microseconds of an aware value (\<open>None\<close> for a naive one).
\<close>

record datetime =
  dt_ordinal :: int
  dt_micros :: nat
  dt_utcoffset :: "int option"

text \<open>
  The exceptions of the modelled code: \<open>RequestException\<close> from the fetch,
  \<open>DecodeError\<close> for any other exception raised while fetching or decoding a
  document, \<open>TypeError\<close> from ordering a naive and an aware \<^verbatim>\<open>datetime\<close>,
  \<open>IndexError\<close> from \<^verbatim>\<open>name_parts[0]\<close> and \<open>KeyError\<close> from reading a
  missing key.
\<close>

datatype exn = RequestException | DecodeError | TypeError | IndexError | KeyError

text \<open>
  Ordering of two \<^verbatim>\<open>datetime\<close> values: two naive values compare by date, then by
  time of day; two aware values compare as instants; a naive and an aware value cannot be
  ordered and Python raises \<^verbatim>\<open>TypeError\<close>.
\<close>

definition dt_less :: "datetime \<Rightarrow> datetime \<Rightarrow> exn + bool" where
  "dt_less a b =
     (case (dt_utcoffset a, dt_utcoffset b) of
        (None, None) \<Rightarrow>
          Inr (dt_ordinal a < dt_ordinal b \<or>
               (dt_ordinal a = dt_ordinal b \<and> dt_micros a < dt_micros b))
      | (Some oa, Some ob) \<Rightarrow>
          Inr (dt_ordinal a * 86400000000 + int (dt_micros a) - oa
               < dt_ordinal b * 86400000000 + int (dt_micros b) - ob)
      | _ \<Rightarrow> Inl TypeError)"

definition dt_greater :: "datetime \<Rightarrow> datetime \<Rightarrow> exn + bool" where
  "dt_greater a b = dt_less b a"

text \<open>
  \<^verbatim>\<open>MemberDto\<close>: the fields that the aggregation reads. The other optional fields
  (SubParty, PartyColour, MemberFrom, ListAs, ProxyName) are never read.
\<close>

record MemberDto =
  MemberId :: int
  Name :: string
  Party :: string
  PartyAbbreviation :: "string option"

record DivisionDto =
  DivisionId :: int
  Date :: datetime
  Title :: string
  AyeCount :: int
  NoCount :: int
  Ayes :: "MemberDto list"
  AyeTellers :: "MemberDto list"
  Noes :: "MemberDto list"
  NoTellers :: "MemberDto list"
  NoVoteRecorded :: "MemberDto list"

record DivisionDat =
  division_id :: int
  date :: datetime
  bill_name :: string

text \<open>
  A Python \<^verbatim>\<open>dict\<close> is an association list with distinct keys in insertion order:
  \<open>map_of\<close> reads a key, \<open>AList.update\<close> assigns one (in place when the key exists, at
  the end otherwise).
\<close>

record MemberDat =
  member_id :: int
  first_name :: string
  surname :: string
  party :: string
  division_votes :: "(int \<times> Vote) list"

section \<open>Configuration (config.py)\<close>

definition DIVISION_START :: int where "DIVISION_START = 723"
definition DIVISION_END :: int where "DIVISION_END = 1810"

text \<open>
  \<^verbatim>\<open>datetime.fromisoformat\<close> of a date-only string is the naive midnight of that
  date. \<^verbatim>\<open>DATE_START = "2019-12-11"\<close> has ordinal 737404 and
  \<^verbatim>\<open>DATE_END = "2024-07-03"\<close> has ordinal 739070.
\<close>

definition midnight :: "int \<Rightarrow> datetime" where
  "midnight d = \<lparr>dt_ordinal = d, dt_micros = 0, dt_utcoffset = None\<rparr>"

definition DATE_START :: datetime where "DATE_START = midnight 737404"
definition DATE_END :: datetime where "DATE_END = midnight 739070"

section \<open>Data processor (data_processor.py)\<close>

text \<open>The lines that the processor prints, in order.\<close>

datatype line =
    Fetching int int
  | Progress int
  | DoesNotExist int
  | ErrorLine int exn
  | Duplicate int int Vote Vote
  | Processed nat
  | Tracked nat

record DataProcessor =
  divisions :: "(int \<times> DivisionDat) list"
  members :: "(int \<times> MemberDat) list"
  printed :: "line list"

definition init :: DataProcessor where
  "init = \<lparr>divisions = [], members = [], printed = []\<rparr>"

definition print :: "line \<Rightarrow> DataProcessor \<Rightarrow> DataProcessor" where
  "print l self = self\<lparr>printed := printed self @ [l]\<rparr>"

text \<open>
  A call either returns the updated processor (\<open>Inr\<close>) or raises (\<open>Inl\<close>); the
  registries are mutated in place, so a raise carries the processor as it was left.
\<close>

type_synonym outcome = "exn \<times> DataProcessor + DataProcessor"

fun state_of :: "outcome \<Rightarrow> DataProcessor" where
  "state_of (Inl (e, self)) = self"
| "state_of (Inr self) = self"

definition and_then :: "outcome \<Rightarrow> (DataProcessor \<Rightarrow> outcome) \<Rightarrow> outcome" where
  "and_then r f = (case r of Inl e \<Rightarrow> Inl e | Inr self \<Rightarrow> f self)"

text \<open>
  \<^verbatim>\<open>str.isspace\<close> on the code points below 256, and \<^verbatim>\<open>name.split(maxsplit=1)\<close>:
  leading whitespace is skipped, the first word ends at the next whitespace, and the rest
  of the string, without its leading whitespace, is the second part when it is not empty.
\<close>

definition isspace :: "char \<Rightarrow> bool" where
  "isspace c = (of_char c \<in> {9, 10, 11, 12, 13, 28, 29, 30, 31, 32, 133, 160 :: nat})"

definition split_maxsplit1 :: "string \<Rightarrow> string list" where
  "split_maxsplit1 s =
     (let s1 = dropWhile isspace s in
      if s1 = [] then []
      else
        let word = takeWhile (\<lambda>c. \<not> isspace c) s1;
            rest = dropWhile isspace (dropWhile (\<lambda>c. \<not> isspace c) s1)
        in if rest = [] then [word] else [word, rest])"

text \<open>
  \<^verbatim>\<open>member.PartyAbbreviation or member.Party\<close>: the abbreviation when it is truthy
  (neither \<^verbatim>\<open>None\<close> nor the empty string), the party name otherwise.
\<close>

definition party_of :: "MemberDto \<Rightarrow> string" where
  "party_of member =
     (case PartyAbbreviation member of
        None \<Rightarrow> Party member
      | Some a \<Rightarrow> if a = [] then Party member else a)"

text \<open>The body of the loop over the members of one category.\<close>

definition add_member_vote :: "int \<Rightarrow> Vote \<Rightarrow> MemberDto \<Rightarrow> DataProcessor \<Rightarrow> outcome" where
  "add_member_vote div_id vote member self =
     (let member_id = MemberId member in
      and_then
        (case map_of (members self) member_id of
           Some _ \<Rightarrow> Inr self
         | None \<Rightarrow>
             (case split_maxsplit1 (Name member) of
                [] \<Rightarrow> Inl (IndexError, self)
              | first # others \<Rightarrow>
                  Inr (self\<lparr>members := AList.update member_id
                         \<lparr>member_id = member_id,
                          first_name = first,
                          surname = (case others of [] \<Rightarrow> [] | second # _ \<Rightarrow> second),
                          party = party_of member,
                          division_votes = []\<rparr> (members self)\<rparr>)))
        (\<lambda>self.
           case map_of (members self) member_id of
             None \<Rightarrow> Inl (KeyError, self)
           | Some m \<Rightarrow>
               (case map_of (division_votes m) div_id of
                  Some existing \<Rightarrow>
                    Inr (print (Duplicate member_id div_id vote existing) self)
                | None \<Rightarrow>
                    Inr (self\<lparr>members := AList.update member_id
                           (m\<lparr>division_votes :=
                                AList.update div_id vote (division_votes m)\<rparr>)
                           (members self)\<rparr>))))"

fun add_member_vote_category :: "int \<Rightarrow> MemberDto list \<Rightarrow> Vote \<Rightarrow> DataProcessor \<Rightarrow> outcome" where
  "add_member_vote_category div_id [] vote self = Inr self"
| "add_member_vote_category div_id (member # rest) vote self =
     and_then (add_member_vote div_id vote member self)
       (add_member_vote_category div_id rest vote)"

text \<open>
  The condition of the date filter,
  \<^verbatim>\<open>division_dto.Date < date_start or division_dto.Date > date_end\<close>.
\<close>

definition outside_range :: "datetime \<Rightarrow> datetime \<Rightarrow> datetime \<Rightarrow> exn + bool" where
  "outside_range d date_start date_end =
     (case dt_less d date_start of
        Inl e \<Rightarrow> Inl e
      | Inr True \<Rightarrow> Inr True
      | Inr False \<Rightarrow> dt_greater d date_end)"

text \<open>The five calls that aggregate the votes of one division, in the order of the source.\<close>

definition aggregate_votes :: "DivisionDto \<Rightarrow> DataProcessor \<Rightarrow> outcome" where
  "aggregate_votes dto self =
     and_then (add_member_vote_category (DivisionId dto) (Ayes dto) Aye self) (\<lambda>self.
     and_then (add_member_vote_category (DivisionId dto) (AyeTellers dto) AyeTeller self) (\<lambda>self.
     and_then (add_member_vote_category (DivisionId dto) (Noes dto) No self) (\<lambda>self.
     and_then (add_member_vote_category (DivisionId dto) (NoTellers dto) NoTeller self) (\<lambda>self.
     add_member_vote_category (DivisionId dto) (NoVoteRecorded dto) Missing self))))"

text \<open>
  The body of the \<^verbatim>\<open>try\<close> block for one division number. Fetching and decoding
  (\<^verbatim>\<open>read_json\<close>, \<^verbatim>\<open>_parse_division_dto\<close>) are the environment: they give the
  decoded document or the exception they raised.
\<close>

definition try_division :: "datetime \<Rightarrow> datetime \<Rightarrow> exn + DivisionDto \<Rightarrow> DataProcessor \<Rightarrow> outcome" where
  "try_division date_start date_end fetched self =
     (case fetched of
        Inl e \<Rightarrow> Inl (e, self)
      | Inr division_dto \<Rightarrow>
          (case outside_range (Date division_dto) date_start date_end of
             Inl e \<Rightarrow> Inl (e, self)
           | Inr True \<Rightarrow> Inr self
           | Inr False \<Rightarrow>
               aggregate_votes division_dto
                 (self\<lparr>divisions := AList.update (DivisionId division_dto)
                    \<lparr>division_id = DivisionId division_dto,
                     date = Date division_dto,
                     bill_name = Title division_dto\<rparr> (divisions self)\<rparr>)))"

text \<open>One iteration of the loop over the division numbers, with its two handlers.\<close>

definition read_division :: "(int \<Rightarrow> exn + DivisionDto) \<Rightarrow> datetime \<Rightarrow> datetime \<Rightarrow> int \<Rightarrow> DataProcessor \<Rightarrow> DataProcessor" where
  "read_division fetch date_start date_end division_no self =
     (case try_division date_start date_end (fetch division_no) (print (Progress division_no) self) of
        Inr self' \<Rightarrow> self'
      | Inl (e, self') \<Rightarrow>
          if e = RequestException then print (DoesNotExist division_no) self'
          else print (ErrorLine division_no e) self')"

fun read_division_list :: "(int \<Rightarrow> exn + DivisionDto) \<Rightarrow> datetime \<Rightarrow> datetime \<Rightarrow> int list \<Rightarrow> DataProcessor \<Rightarrow> DataProcessor" where
  "read_division_list fetch date_start date_end [] self = self"
| "read_division_list fetch date_start date_end (division_no # rest) self =
     read_division_list fetch date_start date_end rest
       (read_division fetch date_start date_end division_no self)"

definition read_divisions :: "(int \<Rightarrow> exn + DivisionDto) \<Rightarrow> DataProcessor \<Rightarrow> DataProcessor" where
  "read_divisions fetch self =
     (let self1 = read_division_list fetch DATE_START DATE_END [DIVISION_START..DIVISION_END - 1]
                    (print (Fetching DIVISION_START (DIVISION_END - 1)) self);
          self2 = print (Processed (length (divisions self1))) self1
      in print (Tracked (length (members self2))) self2)"

section \<open>Output writer (output_writer.py)\<close>

text \<open>Python's \<^verbatim>\<open>str\<close> of an integer.\<close>

fun str_nat :: "nat \<Rightarrow> string" where
  "str_nat n =
     (if n < 10 then [''0123456789'' ! n]
      else str_nat (n div 10) @ [''0123456789'' ! (n mod 10)])"

definition str_int :: "int \<Rightarrow> string" where
  "str_int i = (if i < 0 then CHR ''-'' # str_nat (nat (- i)) else str_nat (nat i))"

text \<open>
  \<^verbatim>\<open>members[mp_id].division_votes.get(division.division_id, Vote.Missing)\<close>, as the
  text of the cell. The key \<open>mp_id\<close> is read from the dictionary it was listed from.
\<close>

definition vote_cell :: "(int \<times> MemberDat) list \<Rightarrow> DivisionDat \<Rightarrow> int \<Rightarrow> exn + string" where
  "vote_cell mems division mp_id =
     (case map_of mems mp_id of
        None \<Rightarrow> Inl KeyError
      | Some m \<Rightarrow>
          Inr (str_int (vote_int
            (case map_of (division_votes m) (division_id division) of
               None \<Rightarrow> Missing
             | Some vote \<Rightarrow> vote))))"

fun collect :: "('a \<Rightarrow> exn + 'b) \<Rightarrow> 'a list \<Rightarrow> exn + 'b list" where
  "collect f [] = Inr []"
| "collect f (x # xs) =
     (case f x of
        Inl e \<Rightarrow> Inl e
      | Inr y \<Rightarrow> (case collect f xs of Inl e \<Rightarrow> Inl e | Inr ys \<Rightarrow> Inr (y # ys)))"

definition dat_row :: "(datetime \<Rightarrow> string) \<Rightarrow> (int \<times> DivisionDat) list \<Rightarrow> (int \<times> MemberDat) list \<Rightarrow> int list \<Rightarrow> int \<Rightarrow> exn + string list" where
  "dat_row strftime divs mems mp_ids div_id =
     (case map_of divs div_id of
        None \<Rightarrow> Inl KeyError
      | Some division \<Rightarrow>
          (case collect (vote_cell mems division) mp_ids of
             Inl e \<Rightarrow> Inl e
           | Inr cells \<Rightarrow>
               Inr ([str_int (DivisionDat.division_id division),
                     strftime (date division),
                     str_int (DivisionDat.division_id division),
                     bill_name division] @ cells)))"

text \<open>
  The lines of the matrix file, each as its list of tab-separated fields: the header, then
  one row per division. \<open>strftime\<close> stands for \<^verbatim>\<open>date.strftime('%Y-%m-%d')\<close>.
\<close>

definition write_dat_file :: "(datetime \<Rightarrow> string) \<Rightarrow> (int \<times> DivisionDat) list \<Rightarrow> (int \<times> MemberDat) list \<Rightarrow> exn + string list list" where
  "write_dat_file strftime divs mems =
     (let mp_ids = sort (map fst mems);
          header_fields = [''rowid'', ''date'', ''voteno'', ''Bill'']
                          @ map (\<lambda>mp_id. ''mpid'' @ str_int mp_id) mp_ids
      in case collect (dat_row strftime divs mems mp_ids) (sort (map fst divs)) of
           Inl e \<Rightarrow> Inl e
         | Inr rows \<Rightarrow> Inr (header_fields # rows))"

section \<open>Observations on the registries\<close>

text \<open>The outcome stored for an (entity, event) pair, when there is one.\<close>

definition stored_vote :: "DataProcessor \<Rightarrow> int \<Rightarrow> int \<Rightarrow> Vote option" where
  "stored_vote self mp_id div_id =
     (case map_of (members self) mp_id of
        None \<Rightarrow> None
      | Some m \<Rightarrow> map_of (division_votes m) div_id)"

text \<open>The stored given name, surname and party of an entity.\<close>

definition identity_of :: "DataProcessor \<Rightarrow> int \<Rightarrow> (string \<times> string \<times> string) option" where
  "identity_of self mp_id =
     (case map_of (members self) mp_id of
        None \<Rightarrow> None
      | Some m \<Rightarrow> Some (first_name m, surname m, party m))"

text \<open>The lines printed between an earlier and a later state of the processor.\<close>

definition new_lines :: "DataProcessor \<Rightarrow> DataProcessor \<Rightarrow> line list" where
  "new_lines self self' = drop (length (printed self)) (printed self')"

text \<open>Every event id under which some entity holds a vote is a key of the event registry.\<close>

definition votes_registered :: "DataProcessor \<Rightarrow> bool" where
  "votes_registered self =
     (\<forall>(mp_id, m) \<in> set (members self).
        \<forall>(div_id, vote) \<in> set (division_votes m). div_id \<in> fst ` set (divisions self))"

text \<open>
  The five categories of a division with their vote codes, in the order of the five calls
  of \<open>aggregate_votes\<close>, and the application of a list of categories in sequence.
\<close>

definition category_order :: "DivisionDto \<Rightarrow> (MemberDto list \<times> Vote) list" where
  "category_order dto =
     [(Ayes dto, Aye), (AyeTellers dto, AyeTeller), (Noes dto, No),
      (NoTellers dto, NoTeller), (NoVoteRecorded dto, Missing)]"

fun add_categories :: "int \<Rightarrow> (MemberDto list \<times> Vote) list \<Rightarrow> DataProcessor \<Rightarrow> outcome" where
  "add_categories div_id [] self = Inr self"
| "add_categories div_id ((mems, vote) # rest) self =
     and_then (add_member_vote_category div_id mems vote self) (add_categories div_id rest)"

section \<open>Example inputs\<close>

definition mp_jo :: MemberDto where
  "mp_jo = \<lparr>MemberId = 7, Name = ''Jo Smith'', Party = ''Party X'', PartyAbbreviation = Some ''X''\<rparr>"

definition mp_jo_later :: MemberDto where
  "mp_jo_later = \<lparr>MemberId = 7, Name = ''J. Smith'', Party = ''Party Y'', PartyAbbreviation = Some ''Y''\<rparr>"

definition mp_al :: MemberDto where
  "mp_al = \<lparr>MemberId = 9, Name = ''Al Jones'', Party = ''Labour'', PartyAbbreviation = Some []\<rparr>"

definition mp_unnamed :: MemberDto where
  "mp_unnamed = \<lparr>MemberId = 8, Name = [], Party = ''Party X'', PartyAbbreviation = None\<rparr>"

definition jo_voted_aye :: DataProcessor where
  "jo_voted_aye =
     \<lparr>divisions = [(100, \<lparr>division_id = 100, date = midnight 737500, bill_name = ''First Bill''\<rparr>)],
      members = [(7, \<lparr>member_id = 7, first_name = ''Jo'', surname = ''Smith'', party = ''X'',
                        division_votes = [(100, Aye)]\<rparr>)],
      printed = []\<rparr>"

definition afternoon :: "int \<Rightarrow> datetime" where
  "afternoon d = \<lparr>dt_ordinal = d, dt_micros = 55800000000, dt_utcoffset = None\<rparr>"

definition division_100 :: DivisionDto where
  "division_100 =
     \<lparr>DivisionId = 100, Date = afternoon 737500, Title = ''First Bill'', AyeCount = 1, NoCount = 1,
      Ayes = [mp_jo], AyeTellers = [], Noes = [], NoTellers = [mp_al], NoVoteRecorded = []\<rparr>"

definition division_100_again :: DivisionDto where
  "division_100_again =
     \<lparr>DivisionId = 100, Date = afternoon 737501, Title = ''Second Bill'', AyeCount = 0, NoCount = 0,
      Ayes = [], AyeTellers = [], Noes = [], NoTellers = [], NoVoteRecorded = []\<rparr>"

definition division_101 :: DivisionDto where
  "division_101 =
     \<lparr>DivisionId = 101, Date = afternoon 737502, Title = ''Third Bill'', AyeCount = 1, NoCount = 0,
      Ayes = [mp_jo_later], AyeTellers = [], Noes = [], NoTellers = [], NoVoteRecorded = []\<rparr>"

definition division_102 :: DivisionDto where
  "division_102 =
     \<lparr>DivisionId = 102, Date = afternoon 737503, Title = ''Fourth Bill'', AyeCount = 2, NoCount = 0,
      Ayes = [mp_jo, mp_unnamed], AyeTellers = [], Noes = [], NoTellers = [], NoVoteRecorded = []\<rparr>"

definition division_103 :: DivisionDto where
  "division_103 =
     \<lparr>DivisionId = 103, Date = afternoon 737504, Title = ''Fifth Bill'', AyeCount = 1, NoCount = 1,
      Ayes = [mp_jo], AyeTellers = [], Noes = [mp_jo], NoTellers = [], NoVoteRecorded = []\<rparr>"

definition division_104 :: DivisionDto where
  "division_104 =
     \<lparr>DivisionId = 104, Date = \<lparr>dt_ordinal = 739070, dt_micros = 36000000000, dt_utcoffset = None\<rparr>,
      Title = ''Last Day Bill'', AyeCount = 1, NoCount = 0,
      Ayes = [mp_jo], AyeTellers = [], Noes = [], NoTellers = [], NoVoteRecorded = []\<rparr>"

definition division_105 :: DivisionDto where
  "division_105 =
     \<lparr>DivisionId = 105, Date = \<lparr>dt_ordinal = 737505, dt_micros = 55800000000, dt_utcoffset = Some 0\<rparr>,
      Title = ''Zulu Bill'', AyeCount = 1, NoCount = 0,
      Ayes = [mp_jo], AyeTellers = [], Noes = [], NoTellers = [], NoVoteRecorded = []\<rparr>"

text \<open>An API that serves the divisions above under the numbers 723 to 729.\<close>

definition fetch_example :: "int \<Rightarrow> exn + DivisionDto" where
  "fetch_example division_no =
     (if division_no = 723 then Inr division_100
      else if division_no = 724 then Inr division_100_again
      else if division_no = 725 then Inr division_101
      else if division_no = 726 then Inr division_102
      else if division_no = 727 then Inr division_103
      else if division_no = 728 then Inr division_104
      else if division_no = 729 then Inr division_105
      else if division_no = 730 then Inl DecodeError
      else Inl RequestException)"

text \<open>
  A second API: the numbers 723 and 724 serve two documents with the event id 100, 725 a
  document in which an entity without a name stands between two categories that both hold
  the entity 7, and 726 a later document that names the entity 8.
\<close>

definition mp_late :: MemberDto where
  "mp_late = \<lparr>MemberId = 8, Name = ''Late Name'', Party = ''Party Y'', PartyAbbreviation = None\<rparr>"

definition division_100_split :: DivisionDto where
  "division_100_split =
     \<lparr>DivisionId = 100, Date = afternoon 737501, Title = ''Second Bill'', AyeCount = 0, NoCount = 2,
      Ayes = [], AyeTellers = [], Noes = [mp_jo], NoTellers = [mp_jo], NoVoteRecorded = []\<rparr>"

definition division_106 :: DivisionDto where
  "division_106 =
     \<lparr>DivisionId = 106, Date = afternoon 737506, Title = ''Sixth Bill'', AyeCount = 2, NoCount = 1,
      Ayes = [mp_jo], AyeTellers = [mp_unnamed], Noes = [mp_jo], NoTellers = [],
      NoVoteRecorded = []\<rparr>"

definition division_107 :: DivisionDto where
  "division_107 =
     \<lparr>DivisionId = 107, Date = afternoon 737507, Title = ''Seventh Bill'', AyeCount = 1, NoCount = 0,
      Ayes = [mp_late], AyeTellers = [], Noes = [], NoTellers = [], NoVoteRecorded = []\<rparr>"

definition fetch_more :: "int \<Rightarrow> exn + DivisionDto" where
  "fetch_more division_no =
     (if division_no = 723 then Inr division_100
      else if division_no = 724 then Inr division_100_split
      else if division_no = 725 then Inr division_106
      else if division_no = 726 then Inr division_107
      else Inl RequestException)"

text \<open>
  Registries with the events 20 and 10 and the entities 3, 1 and 2, in this order of
  insertion, the same registries in another order of insertion, and a stand-in for
  \<^verbatim>\<open>strftime\<close>.
\<close>

definition example_divisions :: "(int \<times> DivisionDat) list" where
  "example_divisions =
     [(20, \<lparr>division_id = 20, date = afternoon 737501, bill_name = ''Second Bill''\<rparr>),
      (10, \<lparr>division_id = 10, date = afternoon 737500, bill_name = ''First Bill''\<rparr>)]"

definition example_members :: "(int \<times> MemberDat) list" where
  "example_members =
     [(3, \<lparr>member_id = 3, first_name = ''Cy'', surname = ''Young'', party = ''Z'',
           division_votes = [(20, Aye)]\<rparr>),
      (1, \<lparr>member_id = 1, first_name = ''Al'', surname = ''Jones'', party = ''X'',
           division_votes = [(20, No), (10, AyeTeller)]\<rparr>),
      (2, \<lparr>member_id = 2, first_name = ''Bo'', surname = ''Lee'', party = ''Y'',
           division_votes = []\<rparr>)]"

definition example_strftime :: "datetime \<Rightarrow> string" where
  "example_strftime d = str_int (dt_ordinal d)"

section \<open>Properties\<close>

subsection \<open>Sequencing of calls that may raise\<close>

lemma and_then_Inr [simp]: "and_then (Inr s) f = f s"
  by (simp add: and_then_def)

lemma and_then_Inl [simp]: "and_then (Inl e) f = Inl e"
  by (simp add: and_then_def)

lemma and_then_return [simp]: "and_then r Inr = r"
  by (cases r) simp_all

lemma and_then_eq_Inr: "and_then r f = Inr s' \<longleftrightarrow> (\<exists>s1. r = Inr s1 \<and> f s1 = Inr s')"
  by (cases r) auto

subsection \<open>The four cases of one assignment\<close>

lemma add_member_vote_duplicate:
  assumes "map_of (members s) (MemberId m) = Some md" "map_of (division_votes md) d = Some old"
  shows "add_member_vote d v m s = Inr (print (Duplicate (MemberId m) d v old) s)"
  using assms by (simp add: add_member_vote_def)

lemma add_member_vote_known:
  assumes "map_of (members s) (MemberId m) = Some md" "map_of (division_votes md) d = None"
  shows "add_member_vote d v m s =
         Inr (s\<lparr>members := AList.update (MemberId m)
                (md\<lparr>division_votes := AList.update d v (division_votes md)\<rparr>) (members s)\<rparr>)"
  using assms by (simp add: add_member_vote_def)

lemma add_member_vote_unnamed:
  assumes "map_of (members s) (MemberId m) = None" "split_maxsplit1 (Name m) = []"
  shows "add_member_vote d v m s = Inl (IndexError, s)"
  using assms by (simp add: add_member_vote_def)

lemma add_member_vote_new:
  assumes "map_of (members s) (MemberId m) = None" "split_maxsplit1 (Name m) = f # r"
  shows "add_member_vote d v m s =
         Inr (s\<lparr>members := AList.update (MemberId m)
                \<lparr>member_id = MemberId m, first_name = f,
                 surname = (case r of [] \<Rightarrow> [] | x # _ \<Rightarrow> x),
                 party = party_of m, division_votes = [(d, v)]\<rparr> (members s)\<rparr>)"
  using assms by (simp add: add_member_vote_def Let_def update_conv')

lemma add_member_vote_cases:
  obtains
    (duplicate) md old where "map_of (members s) (MemberId m) = Some md"
      "map_of (division_votes md) d = Some old"
      "add_member_vote d v m s = Inr (print (Duplicate (MemberId m) d v old) s)"
  | (known) md where "map_of (members s) (MemberId m) = Some md"
      "map_of (division_votes md) d = None"
      "add_member_vote d v m s =
         Inr (s\<lparr>members := AList.update (MemberId m)
                (md\<lparr>division_votes := AList.update d v (division_votes md)\<rparr>) (members s)\<rparr>)"
  | (unnamed) "map_of (members s) (MemberId m) = None" "split_maxsplit1 (Name m) = []"
      "add_member_vote d v m s = Inl (IndexError, s)"
  | (new) f r where "map_of (members s) (MemberId m) = None" "split_maxsplit1 (Name m) = f # r"
      "add_member_vote d v m s =
         Inr (s\<lparr>members := AList.update (MemberId m)
                \<lparr>member_id = MemberId m, first_name = f,
                 surname = (case r of [] \<Rightarrow> [] | x # _ \<Rightarrow> x),
                 party = party_of m, division_votes = [(d, v)]\<rparr> (members s)\<rparr>)"
proof (cases "map_of (members s) (MemberId m)")
  case None
  show ?thesis
  proof (cases "split_maxsplit1 (Name m)")
    case Nil
    with None show ?thesis using unnamed add_member_vote_unnamed by blast
  next
    case (Cons f r)
    with None show ?thesis using new add_member_vote_new by blast
  qed
next
  case (Some md)
  show ?thesis
  proof (cases "map_of (division_votes md) d")
    case None
    with Some show ?thesis using known add_member_vote_known by blast
  next
    case (Some old)
    with \<open>map_of (members s) (MemberId m) = Some md\<close> show ?thesis
      using duplicate add_member_vote_duplicate by blast
  qed
qed

lemma add_member_vote_raise: "add_member_vote d v m s = Inl (e, s') \<Longrightarrow> s' = s \<and> e = IndexError"
  by (cases rule: add_member_vote_cases [of s m d v]) simp_all

lemma add_member_vote_divisions:
  "divisions (state_of (add_member_vote d v m s)) = divisions s"
  by (cases rule: add_member_vote_cases [of s m d v]) (simp_all add: print_def)

lemma stored_vote_step:
  assumes "add_member_vote d v m s = Inr s'"
  shows "stored_vote s' mid d' =
         (if mid = MemberId m \<and> d' = d \<and> stored_vote s mid d' = None then Some v
          else stored_vote s mid d')"
  using assms
  by (cases rule: add_member_vote_cases [of s m d v])
     (auto simp: stored_vote_def print_def update_conv' split: option.splits if_splits)

lemma printed_step:
  assumes "add_member_vote d v m s = Inr s'"
  shows "printed s' = printed s @
         (case stored_vote s (MemberId m) d of
            None \<Rightarrow> [] | Some old \<Rightarrow> [Duplicate (MemberId m) d v old])"
  using assms
  by (cases rule: add_member_vote_cases [of s m d v])
     (auto simp: stored_vote_def print_def)


subsection \<open>Duplicate vote conflicts\<close>

text \<open>
  C4. When an (entity, event) pair already has a stored outcome, a second assignment for the
  pair returns normally, leaves the member registry (and so the stored outcome) as it was,
  prints exactly one line, which names the entity id, the event id, the refused outcome and
  the stored one, and the loop goes on with the remaining members of the category.
\<close>

theorem duplicate_vote_keeps_original:
  assumes "stored_vote self (MemberId member) div_id = Some existing"
  shows "add_member_vote div_id vote member self =
           Inr (print (Duplicate (MemberId member) div_id vote existing) self)
       \<and> add_member_vote_category div_id (member # rest) vote self =
           add_member_vote_category div_id rest vote
             (print (Duplicate (MemberId member) div_id vote existing) self)
       \<and> members (print (Duplicate (MemberId member) div_id vote existing) self) = members self
       \<and> new_lines self (print (Duplicate (MemberId member) div_id vote existing) self) =
           [Duplicate (MemberId member) div_id vote existing]"
proof -
  from assms obtain md where md: "map_of (members self) (MemberId member) = Some md"
    "map_of (division_votes md) div_id = Some existing"
    by (auto simp: stored_vote_def split: option.splits)
  have step: "add_member_vote div_id vote member self =
           Inr (print (Duplicate (MemberId member) div_id vote existing) self)"
    using md by (rule add_member_vote_duplicate)
  then show ?thesis by (simp add: print_def new_lines_def)
qed

theorem duplicate_vote_keeps_original_witness:
  "stored_vote jo_voted_aye 7 100 = Some Aye
   \<and> add_member_vote 100 No mp_jo jo_voted_aye = Inr (print (Duplicate 7 100 No Aye) jo_voted_aye)
   \<and> stored_vote (print (Duplicate 7 100 No Aye) jo_voted_aye) 7 100 = Some Aye
   \<and> new_lines jo_voted_aye (print (Duplicate 7 100 No Aye) jo_voted_aye) = [Duplicate 7 100 No Aye]"
proof -
  have h: "stored_vote jo_voted_aye (MemberId mp_jo) 100 = Some Aye"
    by (simp add: stored_vote_def jo_voted_aye_def mp_jo_def)
  have id: "MemberId mp_jo = 7" by (simp add: mp_jo_def)
  show ?thesis
    using duplicate_vote_keeps_original [OF h, of No "[]"] h
    by (simp add: id stored_vote_def print_def)
qed

subsection \<open>The party of a new entity\<close>

text \<open>
  C7, as stated, fails when the abbreviation is present but empty: the entity below has the
  abbreviation \<open>''''\<close> and the party name \<open>''Labour''\<close>, and the stored party is the
  party name.
\<close>

theorem party_abbreviation_empty_counterexample:
  "PartyAbbreviation mp_al = Some []
   \<and> identity_of (state_of (add_member_vote 100 Aye mp_al init)) 9 = Some (''Al'', ''Jones'', ''Labour'')"
  by (simp add: mp_al_def init_def add_member_vote_def identity_of_def split_maxsplit1_def
        isspace_def party_of_def Let_def)

text \<open>
  C7, amended. The party stored for a newly created entity is the abbreviation when it is
  present and not empty, and the party name when the abbreviation is absent or empty.
\<close>

theorem party_prefers_nonempty_abbreviation:
  assumes "map_of (members self) (MemberId member) = None"
      and "add_member_vote div_id vote member self = Inr self'"
  shows "\<exists>m. map_of (members self') (MemberId member) = Some m
           \<and> party m = (case PartyAbbreviation member of
                          None \<Rightarrow> Party member
                        | Some a \<Rightarrow> if a \<noteq> [] then a else Party member)"
  using assms
  by (cases rule: add_member_vote_cases [of self member div_id vote])
     (auto simp: update_conv' party_of_def split: option.splits)

theorem party_prefers_nonempty_abbreviation_witness:
  "map_of (members init) (MemberId mp_jo) = None
   \<and> add_member_vote 100 Aye mp_jo init = Inr (state_of (add_member_vote 100 Aye mp_jo init))
   \<and> (\<exists>m. map_of (members (state_of (add_member_vote 100 Aye mp_jo init))) 7 = Some m \<and> party m = ''X'')"
proof -
  have h1: "map_of (members init) (MemberId mp_jo) = None" by (simp add: init_def)
  have h2: "add_member_vote 100 Aye mp_jo init = Inr (state_of (add_member_vote 100 Aye mp_jo init))"
    by (simp add: mp_jo_def init_def add_member_vote_def split_maxsplit1_def isspace_def Let_def)
  show ?thesis
    using party_prefers_nonempty_abbreviation [OF h1 h2] h1 h2
    by (simp add: mp_jo_def)
qed

subsection \<open>Lifting a property of one assignment to the whole run\<close>

lemma state_of_and_then:
  assumes "P (state_of r)" "\<And>s1. r = Inr s1 \<Longrightarrow> P (state_of (f s1))"
  shows "P (state_of (and_then r f))"
  using assms by (cases r) auto

lemma category_invariant:
  assumes step: "\<And>m s s'. P s \<Longrightarrow> add_member_vote d v m s = Inr s' \<Longrightarrow> P s'"
      and "P s"
  shows "P (state_of (add_member_vote_category d ms v s))"
  using \<open>P s\<close>
proof (induction ms arbitrary: s)
  case Nil
  then show ?case by simp
next
  case (Cons m ms)
  show ?case
  proof (cases "add_member_vote d v m s")
    case (Inl a)
    then obtain e s' where "a = (e, s')" by (cases a)
    with Inl add_member_vote_raise have "s' = s" by blast
    with Inl \<open>a = (e, s')\<close> Cons.prems show ?thesis by simp
  next
    case (Inr s1)
    with Cons.prems step have "P s1" by blast
    with Inr Cons.IH show ?thesis by simp
  qed
qed

lemma category_invariant_Inr:
  assumes "\<And>m s s'. P s \<Longrightarrow> add_member_vote d v m s = Inr s' \<Longrightarrow> P s'"
      and "P s" "add_member_vote_category d ms v s = Inr s'"
  shows "P s'"
  using category_invariant [of P d v s ms] assms by simp

lemma add_categories_Nil_fun: "add_categories d [] = Inr"
  by (rule ext) simp

lemma add_categories_Cons_fun:
  "add_categories d ((ms, v) # cs) =
     (\<lambda>s. and_then (add_member_vote_category d ms v s) (add_categories d cs))"
  by (rule ext) simp

lemma aggregate_votes_order:
  "aggregate_votes dto s = add_categories (DivisionId dto) (category_order dto) s"
  by (simp add: aggregate_votes_def category_order_def add_categories_Nil_fun
        add_categories_Cons_fun)

lemma categories_invariant:
  assumes step: "\<And>v m s s'. P s \<Longrightarrow> add_member_vote d v m s = Inr s' \<Longrightarrow> P s'"
      and "P s"
  shows "P (state_of (add_categories d cs s))"
  using \<open>P s\<close>
proof (induction cs arbitrary: s)
  case Nil
  then show ?case by simp
next
  case (Cons c cs)
  obtain ms v where c: "c = (ms, v)" by (cases c)
  have first: "P (state_of (add_member_vote_category d ms v s))"
    using step Cons.prems by (rule category_invariant [where P = P])
  show ?case
  proof (cases "add_member_vote_category d ms v s")
    case (Inl a)
    with first c show ?thesis by simp
  next
    case (Inr s1)
    with first have "P s1" by simp
    then have "P (state_of (add_categories d cs s1))" by (rule Cons.IH)
    with Inr c show ?thesis by simp
  qed
qed

lemma aggregate_invariant:
  assumes "\<And>v m s s'. P s \<Longrightarrow> add_member_vote (DivisionId dto) v m s = Inr s' \<Longrightarrow> P s'"
      and "P s"
  shows "P (state_of (aggregate_votes dto s))"
  unfolding aggregate_votes_order using assms by (rule categories_invariant [where P = P])


lemma read_division_invariant:
  assumes tr: "\<And>fetched s. P s \<Longrightarrow> P (state_of (try_division ds de fetched s))"
      and pr: "\<And>l s. P s \<Longrightarrow> P (print l s)"
      and "P s"
  shows "P (read_division fetch ds de n s)"
proof -
  have "P (state_of (try_division ds de (fetch n) (print (Progress n) s)))"
    using \<open>P s\<close> by (intro tr pr)
  then show ?thesis
    by (cases "try_division ds de (fetch n) (print (Progress n) s)")
       (auto simp: read_division_def intro: pr)
qed

lemma read_division_list_invariant:
  assumes tr: "\<And>fetched s. P s \<Longrightarrow> P (state_of (try_division ds de fetched s))"
      and pr: "\<And>l s. P s \<Longrightarrow> P (print l s)"
      and "P s"
  shows "P (read_division_list fetch ds de nos s)"
  using \<open>P s\<close>
proof (induction nos arbitrary: s)
  case Nil
  then show ?case by simp
next
  case (Cons n nos)
  have "P (read_division fetch ds de n s)"
    using tr pr Cons.prems by (rule read_division_invariant [where P = P])
  then show ?case by (simp add: Cons.IH)
qed

lemma read_divisions_invariant:
  assumes tr: "\<And>fetched s. P s \<Longrightarrow> P (state_of (try_division DATE_START DATE_END fetched s))"
      and pr: "\<And>l s. P s \<Longrightarrow> P (print l s)"
      and "P s"
  shows "P (read_divisions fetch s)"
proof -
  have "P (read_division_list fetch DATE_START DATE_END [DIVISION_START..DIVISION_END - 1]
             (print (Fetching DIVISION_START (DIVISION_END - 1)) s))"
    by (rule read_division_list_invariant [where P = P, OF tr pr]) (auto intro: pr \<open>P s\<close>)
  then show ?thesis by (simp add: read_divisions_def Let_def pr)
qed

subsection \<open>Evaluation of the examples\<close>

lemmas example_defs = fetch_example_def division_100_def division_100_again_def division_101_def
  division_102_def division_103_def division_104_def division_105_def mp_jo_def mp_jo_later_def
  mp_al_def mp_unnamed_def afternoon_def midnight_def DATE_START_def DATE_END_def init_def
  jo_voted_aye_def

lemmas run_defs = read_division_def try_division_def outside_range_def dt_less_def dt_greater_def
  aggregate_votes_def add_member_vote_def split_maxsplit1_def isspace_def party_of_def print_def
  Let_def

lemmas more_example_defs = fetch_more_def mp_late_def division_100_split_def division_106_def
  division_107_def

subsection \<open>Names that can be split\<close>

lemma split_maxsplit1_Nil_iff: "split_maxsplit1 s = [] \<longleftrightarrow> (\<forall>c \<in> set s. isspace c)"
proof -
  define s1 where "s1 = dropWhile isspace s"
  define word where "word = takeWhile (\<lambda>c. \<not> isspace c) s1"
  define rest where "rest = dropWhile isspace (dropWhile (\<lambda>c. \<not> isspace c) s1)"
  have eq: "split_maxsplit1 s = (if s1 = [] then [] else if rest = [] then [word] else [word, rest])"
    unfolding split_maxsplit1_def Let_def s1_def word_def rest_def ..
  have "split_maxsplit1 s = [] \<longleftrightarrow> s1 = []"
    unfolding eq by (cases "s1 = []"; cases "rest = []") simp_all
  then show ?thesis unfolding s1_def by (simp only: dropWhile_eq_Nil_conv)
qed

lemma add_member_vote_returns:
  assumes "split_maxsplit1 (Name m) \<noteq> []"
  shows "\<exists>s'. add_member_vote d v m s = Inr s'"
  using assms by (cases rule: add_member_vote_cases [of s m d v]) simp_all

lemma category_returns:
  assumes "\<forall>m \<in> set ms. split_maxsplit1 (Name m) \<noteq> []"
  shows "\<exists>s'. add_member_vote_category d ms v s = Inr s'"
  using assms
proof (induction ms arbitrary: s)
  case Nil
  then show ?case by simp
next
  case (Cons m ms)
  from Cons.prems have "split_maxsplit1 (Name m) \<noteq> []" by simp
  then obtain s1 where s1: "add_member_vote d v m s = Inr s1"
    using add_member_vote_returns by blast
  from Cons.prems have "\<forall>m \<in> set ms. split_maxsplit1 (Name m) \<noteq> []" by simp
  then obtain s' where "add_member_vote_category d ms v s1 = Inr s'"
    using Cons.IH by blast
  with s1 show ?case by simp
qed

lemma categories_return:
  assumes "\<forall>(ms, v) \<in> set cs. \<forall>m \<in> set ms. split_maxsplit1 (Name m) \<noteq> []"
  shows "\<exists>s'. add_categories d cs s = Inr s'"
  using assms
proof (induction cs arbitrary: s)
  case Nil
  then show ?case by simp
next
  case (Cons c cs)
  obtain ms v where c: "c = (ms, v)" by (cases c)
  from Cons.prems c have "\<forall>m \<in> set ms. split_maxsplit1 (Name m) \<noteq> []" by simp
  then obtain s1 where s1: "add_member_vote_category d ms v s = Inr s1"
    using category_returns by blast
  from Cons.prems have "\<forall>(ms, v) \<in> set cs. \<forall>m \<in> set ms. split_maxsplit1 (Name m) \<noteq> []"
    by simp
  then obtain s' where "add_categories d cs s1 = Inr s'"
    using Cons.IH by blast
  with s1 c show ?case by simp
qed

subsection \<open>First-seen identity\<close>

lemma identity_print [simp]: "identity_of (print l s) = identity_of s"
  by (rule ext) (simp add: identity_of_def print_def)





subsection \<open>Votes are held only for registered events\<close>

lemma set_update_subset: "set (AList.update k v al) \<subseteq> insert (k, v) (set al)"
  by (induction al) auto

lemma votes_registered_print [simp]: "votes_registered (print l s) = votes_registered s"
  by (simp add: votes_registered_def print_def)

lemma votes_registered_iff:
  "votes_registered s \<longleftrightarrow>
     (\<forall>k md d v. (k, md) \<in> set (members s) \<longrightarrow> (d, v) \<in> set (division_votes md) \<longrightarrow>
        d \<in> fst ` set (divisions s))"
  unfolding votes_registered_def by fast

lemma votes_registered_update:
  assumes reg: "votes_registered s"
      and new: "\<And>d v. (d, v) \<in> set (division_votes md') \<Longrightarrow> d \<in> fst ` set (divisions s)"
      and mem: "members s' = AList.update k md' (members s)"
      and div: "divisions s' = divisions s"
  shows "votes_registered s'"
  unfolding votes_registered_iff
proof (intro allI impI)
  fix k0 md0 d0 v0
  assume "(k0, md0) \<in> set (members s')" and v: "(d0, v0) \<in> set (division_votes md0)"
  then have "(k0, md0) = (k, md') \<or> (k0, md0) \<in> set (members s)"
    using set_update_subset [of k md' "members s"] mem by auto
  then show "d0 \<in> fst ` set (divisions s')"
  proof
    assume "(k0, md0) = (k, md')"
    with v new div show ?thesis by simp
  next
    assume "(k0, md0) \<in> set (members s)"
    with reg v have "d0 \<in> fst ` set (divisions s)"
      unfolding votes_registered_iff by blast
    with div show ?thesis by simp
  qed
qed

lemma votes_registered_step:
  assumes "votes_registered s \<and> d \<in> fst ` set (divisions s)"
      and "add_member_vote d v m s = Inr s'"
  shows "votes_registered s' \<and> d \<in> fst ` set (divisions s')"
proof (cases rule: add_member_vote_cases [of s m d v])
  case (duplicate md old)
  with assms(2) have "s' = print (Duplicate (MemberId m) d v old) s" by simp
  then have "votes_registered s' = votes_registered s" "divisions s' = divisions s"
    by (simp_all add: print_def votes_registered_def)
  with assms(1) show ?thesis by simp
next
  case (known md)
  let ?md' = "md\<lparr>division_votes := AList.update d v (division_votes md)\<rparr>"
  from known assms(2) have s': "members s' = AList.update (MemberId m) ?md' (members s)"
    "divisions s' = divisions s" by auto
  have old: "(MemberId m, md) \<in> set (members s)" using known(1) by (rule map_of_SomeD)
  have "votes_registered s'"
  proof (rule votes_registered_update [OF _ _ s'])
    show "votes_registered s" using assms(1) by simp
    fix d' v'
    assume "(d', v') \<in> set (division_votes ?md')"
    then have "(d', v') = (d, v) \<or> (d', v') \<in> set (division_votes md)"
      using set_update_subset [of d v "division_votes md"] by auto
    then show "d' \<in> fst ` set (divisions s)"
      using assms(1) old unfolding votes_registered_iff by blast
  qed
  with assms(1) s'(2) show ?thesis by simp
next
  case unnamed
  with assms show ?thesis by simp
next
  case (new f r)
  let ?md' = "\<lparr>member_id = MemberId m, first_name = f,
                 surname = (case r of [] \<Rightarrow> [] | x # _ \<Rightarrow> x),
                 party = party_of m, division_votes = [(d, v)]\<rparr>"
  from new assms(2) have s': "members s' = AList.update (MemberId m) ?md' (members s)"
    "divisions s' = divisions s" by auto
  have "votes_registered s'"
  proof (rule votes_registered_update [OF _ _ s'])
    show "votes_registered s" using assms(1) by simp
    fix d' v'
    assume "(d', v') \<in> set (division_votes ?md')"
    then show "d' \<in> fst ` set (divisions s)" using assms(1) by simp
  qed
  with assms(1) s'(2) show ?thesis by simp
qed

lemma votes_registered_try_division:
  assumes "votes_registered s"
  shows "votes_registered (state_of (try_division ds de fetched s))"
proof (cases fetched)
  case (Inl e)
  with assms show ?thesis by (simp add: try_division_def)
next
  case (Inr dto)
  let ?s1 = "s\<lparr>divisions := AList.update (DivisionId dto)
      \<lparr>division_id = DivisionId dto, date = Date dto, bill_name = Title dto\<rparr> (divisions s)\<rparr>"
  let ?P = "\<lambda>s. votes_registered s \<and> DivisionId dto \<in> fst ` set (divisions s)"
  have "?P ?s1" using assms by (auto simp: votes_registered_def dom_update)
  then have "?P (state_of (aggregate_votes dto ?s1))"
    by (rule aggregate_invariant [where P = ?P, rotated]) (rule votes_registered_step)
  with Inr assms show ?thesis
    by (auto simp: try_division_def split: sum.splits bool.splits)
qed

text \<open>
  C10. The empty registries satisfy the invariant that every event id under which an entity
  holds a vote is a key of the event registry; every iteration of the loop over the division
  numbers keeps it, whether the division is filtered out, fails or is aggregated, and so does
  the whole run. An event id that was never registered is therefore never a key of any
  entity's vote mapping.
\<close>

theorem votes_only_for_registered_events:
  "votes_registered init
   \<and> (votes_registered self \<longrightarrow>
        votes_registered (read_division fetch date_start date_end division_no self)
        \<and> votes_registered (read_divisions fetch self)
        \<and> (\<forall>mp_id div_id. div_id \<notin> fst ` set (divisions (read_divisions fetch self)) \<longrightarrow>
              stored_vote (read_divisions fetch self) mp_id div_id = None))"
proof (intro conjI impI allI)
  show "votes_registered init" by (simp add: votes_registered_def init_def)
next
  assume a: "votes_registered self"
  then show "votes_registered (read_division fetch date_start date_end division_no self)"
    by (intro read_division_invariant [where P = votes_registered])
       (simp_all add: votes_registered_try_division)
  from a show run: "votes_registered (read_divisions fetch self)"
    by (intro read_divisions_invariant [where P = votes_registered])
       (simp_all add: votes_registered_try_division)
  fix mp_id div_id
  assume unreg: "div_id \<notin> fst ` set (divisions (read_divisions fetch self))"
  show "stored_vote (read_divisions fetch self) mp_id div_id = None"
  proof (cases "map_of (members (read_divisions fetch self)) mp_id")
    case None
    then show ?thesis by (simp add: stored_vote_def)
  next
    case (Some m)
    then have "(mp_id, m) \<in> set (members (read_divisions fetch self))"
      by (rule map_of_SomeD)
    with run unreg have "div_id \<notin> fst ` set (division_votes m)"
      unfolding votes_registered_def by fastforce
    then have "map_of (division_votes m) div_id = None"
      by (simp add: map_of_eq_None_iff)
    with Some show ?thesis by (simp add: stored_vote_def)
  qed
qed

theorem votes_only_for_registered_events_witness:
  "votes_registered jo_voted_aye
   \<and> votes_registered (read_division fetch_example DATE_START DATE_END 726 jo_voted_aye)
   \<and> stored_vote (read_division fetch_example DATE_START DATE_END 726 jo_voted_aye) 7 102 = Some Aye
   \<and> votes_registered (read_divisions fetch_example jo_voted_aye)"
proof -
  have h: "votes_registered jo_voted_aye"
    by (simp add: votes_registered_def jo_voted_aye_def)
  have v: "stored_vote (read_division fetch_example DATE_START DATE_END 726 jo_voted_aye) 7 102 = Some Aye"
    by (simp add: example_defs run_defs stored_vote_def)
  show ?thesis
    using votes_only_for_registered_events [of jo_voted_aye fetch_example DATE_START DATE_END 726] h v
    by simp
qed

subsection \<open>Registration of an event\<close>

lemma add_member_vote_divisions_Inr:
  "add_member_vote d v m s = Inr s' \<Longrightarrow> divisions s' = divisions s"
  using add_member_vote_divisions [of d v m s] by simp

lemma aggregate_votes_divisions:
  "divisions (state_of (aggregate_votes dto s)) = divisions s"
  by (rule aggregate_invariant [where P = "\<lambda>s'. divisions s' = divisions s"])
     (simp_all add: add_member_vote_divisions_Inr)

lemma aggregate_votes_new_lines:
  "\<exists>ls. printed (state_of (aggregate_votes dto s)) = printed s @ ls
        \<and> (\<forall>l \<in> set ls. \<exists>mp_id vote existing. l = Duplicate mp_id (DivisionId dto) vote existing)"
proof (rule aggregate_invariant [where P = "\<lambda>s'. \<exists>ls. printed s' = printed s @ ls
        \<and> (\<forall>l \<in> set ls. \<exists>mp_id vote existing. l = Duplicate mp_id (DivisionId dto) vote existing)"])
  fix v m s1 s2
  assume "\<exists>ls. printed s1 = printed s @ ls
        \<and> (\<forall>l \<in> set ls. \<exists>mp_id vote existing. l = Duplicate mp_id (DivisionId dto) vote existing)"
    and "add_member_vote (DivisionId dto) v m s1 = Inr s2"
  then show "\<exists>ls. printed s2 = printed s @ ls
        \<and> (\<forall>l \<in> set ls. \<exists>mp_id vote existing. l = Duplicate mp_id (DivisionId dto) vote existing)"
    by (auto simp: printed_step split: option.splits)
qed simp

lemma category_raise:
  "add_member_vote_category d ms v s = Inl (e, s') \<Longrightarrow> e = IndexError"
proof (induction ms arbitrary: s)
  case Nil
  then show ?case by simp
next
  case (Cons m ms)
  show ?case
  proof (cases "add_member_vote d v m s")
    case (Inl a)
    with Cons.prems have "add_member_vote d v m s = Inl (e, s')" by simp
    then show ?thesis using add_member_vote_raise by blast
  next
    case (Inr s1)
    with Cons.prems have "add_member_vote_category d ms v s1 = Inl (e, s')" by simp
    then show ?thesis by (rule Cons.IH)
  qed
qed

lemma categories_raise:
  "add_categories d cs s = Inl (e, s') \<Longrightarrow> e = IndexError"
proof (induction cs arbitrary: s)
  case Nil
  then show ?case by simp
next
  case (Cons c cs)
  obtain ms v where c: "c = (ms, v)" by (cases c)
  show ?case
  proof (cases "add_member_vote_category d ms v s")
    case (Inl a)
    with Cons.prems c have "add_member_vote_category d ms v s = Inl (e, s')" by simp
    then show ?thesis by (rule category_raise)
  next
    case (Inr s1)
    with Cons.prems c have "add_categories d cs s1 = Inl (e, s')" by simp
    then show ?thesis by (rule Cons.IH)
  qed
qed

lemma aggregate_votes_raise:
  "aggregate_votes dto s = Inl (e, s') \<Longrightarrow> e = IndexError"
  unfolding aggregate_votes_order by (rule categories_raise)

text \<open>
  C1, as stated, fails: the divisions served under the numbers 723 and 724 both carry the
  event id 100. After the first, the registry holds its date and title; after the second,
  the entry holds the date and title of the second, and nothing was printed but the two
  progress marks.
\<close>

theorem duplicate_event_overwrites_counterexample:
  "map_of (divisions (read_division_list fetch_example DATE_START DATE_END [723] init)) 100
     = Some \<lparr>division_id = 100, date = afternoon 737500, bill_name = ''First Bill''\<rparr>
   \<and> map_of (divisions (read_division_list fetch_example DATE_START DATE_END [723, 724] init)) 100
     = Some \<lparr>division_id = 100, date = afternoon 737501, bill_name = ''Second Bill''\<rparr>
   \<and> printed (read_division_list fetch_example DATE_START DATE_END [723, 724] init)
     = [Progress 723, Progress 724]"
  by (simp add: example_defs run_defs)

text \<open>
  C1, amended. Registering an admitted event does not fail when its event id is already in
  the event registry: whatever the registry held for that id, after the iteration it holds
  the id, date and title of the event just processed, the iteration prints no line about
  the event other than its progress mark, the duplicate-vote lines of its categories and, if
  a category raised, the error line.
\<close>

theorem register_event_overwrites:
  assumes "fetch division_no = Inr dto"
      and "outside_range (Date dto) date_start date_end = Inr False"
  shows "map_of (divisions (read_division fetch date_start date_end division_no self)) (DivisionId dto)
           = Some \<lparr>division_id = DivisionId dto, date = Date dto, bill_name = Title dto\<rparr>
       \<and> (\<exists>ls. printed (read_division fetch date_start date_end division_no self)
                  = printed self @ Progress division_no # ls
              \<and> (\<forall>l \<in> set ls. (\<exists>mp_id vote existing. l = Duplicate mp_id (DivisionId dto) vote existing)
                                \<or> l = ErrorLine division_no IndexError))"
proof -
  let ?s0 = "print (Progress division_no) self"
  let ?s1 = "?s0\<lparr>divisions := AList.update (DivisionId dto)
      \<lparr>division_id = DivisionId dto, date = Date dto, bill_name = Title dto\<rparr> (divisions ?s0)\<rparr>"
  let ?r = "aggregate_votes dto ?s1"
  have body: "try_division date_start date_end (fetch division_no) ?s0 = ?r"
    using assms by (simp add: try_division_def)
  have d: "divisions (state_of ?r) = divisions ?s1" by (rule aggregate_votes_divisions)
  obtain ls where ls: "printed (state_of ?r) = printed ?s1 @ ls"
    "\<forall>l \<in> set ls. \<exists>mp_id vote existing. l = Duplicate mp_id (DivisionId dto) vote existing"
    using aggregate_votes_new_lines [of dto ?s1] by blast
  have p1: "printed ?s1 = printed self @ [Progress division_no]" by (simp add: print_def)
  show ?thesis
  proof (cases ?r)
    case (Inr s')
    with body d ls p1 show ?thesis
      by (auto simp: read_division_def update_conv')
  next
    case (Inl a)
    obtain e s' where a: "a = (e, s')" by (cases a)
    with Inl have "e = IndexError" using aggregate_votes_raise by blast
    with Inl a body d ls p1 show ?thesis
      by (auto simp: read_division_def update_conv' print_def)
  qed
qed

theorem register_event_overwrites_witness:
  "fetch_example 724 = Inr division_100_again
   \<and> outside_range (Date division_100_again) DATE_START DATE_END = Inr False
   \<and> map_of (divisions jo_voted_aye) 100
       = Some \<lparr>division_id = 100, date = midnight 737500, bill_name = ''First Bill''\<rparr>
   \<and> map_of (divisions (read_division fetch_example DATE_START DATE_END 724 jo_voted_aye)) 100
       = Some \<lparr>division_id = 100, date = afternoon 737501, bill_name = ''Second Bill''\<rparr>"
proof -
  have h1: "fetch_example 724 = Inr division_100_again" by (simp add: fetch_example_def)
  have h2: "outside_range (Date division_100_again) DATE_START DATE_END = Inr False"
    by (simp add: example_defs run_defs)
  have before: "map_of (divisions jo_voted_aye) 100
       = Some \<lparr>division_id = 100, date = midnight 737500, bill_name = ''First Bill''\<rparr>"
    by (simp add: jo_voted_aye_def)
  show ?thesis
    using register_event_overwrites
            [where fetch = fetch_example and division_no = 724 and dto = division_100_again
               and date_start = DATE_START and date_end = DATE_END and self = jo_voted_aye,
             OF h1 h2] h1 h2 before
    by (simp add: division_100_again_def)
qed

subsection \<open>The date filter\<close>

lemma outside_range_naive:
  assumes "dt_utcoffset d = None"
  shows "outside_range d (midnight a) (midnight b) =
         Inr (dt_ordinal d < a \<or> b < dt_ordinal d \<or> (dt_ordinal d = b \<and> 0 < dt_micros d))"
  using assms by (auto simp: outside_range_def dt_less_def dt_greater_def midnight_def split: bool.splits)

lemma outside_range_aware:
  assumes "dt_utcoffset d = Some off"
  shows "outside_range d (midnight a) (midnight b) = Inl TypeError"
  using assms by (simp add: outside_range_def dt_less_def dt_greater_def midnight_def)

text \<open>
  C2. The division served under the number 728 is dated on the last day of the configured
  range, at ten in the morning. The filter compares the whole timestamp with the midnight
  that starts that day, finds it outside the range, and the iteration leaves the registries
  empty.
\<close>

theorem date_filter_rejects_last_day:
  "dt_ordinal (Date division_104) = dt_ordinal DATE_END
   \<and> outside_range (Date division_104) DATE_START DATE_END = Inr True
   \<and> read_division fetch_example DATE_START DATE_END 728 init = print (Progress 728) init"
  by (simp add: example_defs run_defs)

subsection \<open>Failing events\<close>

text \<open>
  C3, as stated, fails: in the division served under the number 726 the second entity of
  the first category has an empty name. The iteration ends in the handler of the error, and
  yet the event 102 is in the event registry and the first entity holds a vote for it.
\<close>

theorem failed_event_stays_registered_counterexample:
  "printed (read_division fetch_example DATE_START DATE_END 726 init)
     = [Progress 726, ErrorLine 726 IndexError]
   \<and> map_of (divisions (read_division fetch_example DATE_START DATE_END 726 init)) 102
     = Some \<lparr>division_id = 102, date = afternoon 737503, bill_name = ''Fourth Bill''\<rparr>
   \<and> stored_vote (read_division fetch_example DATE_START DATE_END 726 init) 7 102 = Some Aye"
  by (simp add: example_defs run_defs stored_vote_def)

text \<open>
  C3, amended. When the fetch or the decoding of a division fails, or the comparison of its
  date with the range raises, the iteration leaves the event registry and the entity
  registry, with every vote mapping, exactly as they were, and prints the failure after the
  progress mark.
\<close>

theorem failure_before_registration_changes_nothing:
  assumes "fetch division_no = Inl e
         \<or> (\<exists>dto. fetch division_no = Inr dto
                  \<and> outside_range (Date dto) date_start date_end = Inl e)"
  shows "divisions (read_division fetch date_start date_end division_no self) = divisions self
       \<and> members (read_division fetch date_start date_end division_no self) = members self
       \<and> printed (read_division fetch date_start date_end division_no self)
           = printed self @ [Progress division_no,
               if e = RequestException then DoesNotExist division_no
               else ErrorLine division_no e]"
  using assms
  by (auto simp: read_division_def try_division_def print_def)

theorem failure_before_registration_changes_nothing_witness:
  "fetch_example 729 = Inr division_105
   \<and> outside_range (Date division_105) DATE_START DATE_END = Inl TypeError
   \<and> divisions (read_division fetch_example DATE_START DATE_END 729 jo_voted_aye)
       = divisions jo_voted_aye
   \<and> members (read_division fetch_example DATE_START DATE_END 729 jo_voted_aye)
       = members jo_voted_aye
   \<and> printed (read_division fetch_example DATE_START DATE_END 729 jo_voted_aye)
       = [Progress 729, ErrorLine 729 TypeError]
   \<and> fetch_example 731 = Inl RequestException
   \<and> divisions (read_division fetch_example DATE_START DATE_END 731 jo_voted_aye)
       = divisions jo_voted_aye
   \<and> members (read_division fetch_example DATE_START DATE_END 731 jo_voted_aye)
       = members jo_voted_aye"
proof -
  have h1: "fetch_example 729 = Inr division_105" by (simp add: fetch_example_def)
  have h2: "outside_range (Date division_105) DATE_START DATE_END = Inl TypeError"
    by (simp add: example_defs run_defs)
  have h3: "fetch_example 731 = Inl RequestException" by (simp add: fetch_example_def)
  have p: "printed jo_voted_aye = []" by (simp add: jo_voted_aye_def)
  show ?thesis
    using failure_before_registration_changes_nothing
            [of fetch_example 729 TypeError DATE_START DATE_END jo_voted_aye]
          failure_before_registration_changes_nothing
            [of fetch_example 731 RequestException DATE_START DATE_END jo_voted_aye]
          h1 h2 h3 p
    by simp
qed

subsection \<open>The order of the categories\<close>

lemma category_stored_vote:
  assumes "add_member_vote_category d ms v s = Inr s'"
  shows "stored_vote s' mid d =
         (if stored_vote s mid d = None \<and> mid \<in> MemberId ` set ms then Some v
          else stored_vote s mid d)"
  using assms
proof (induction ms arbitrary: s)
  case Nil
  then show ?case by simp
next
  case (Cons m ms)
  from Cons.prems obtain s1 where s1: "add_member_vote d v m s = Inr s1"
    "add_member_vote_category d ms v s1 = Inr s'"
    by (auto simp: and_then_eq_Inr)
  show ?case
    using Cons.IH [OF s1(2)] stored_vote_step [OF s1(1), of mid d]
    by (auto split: if_splits)
qed

lemma category_printed:
  assumes "add_member_vote_category d ms v s = Inr s'"
  shows "\<exists>ls. printed s' = printed s @ ls"
  using assms
proof (induction ms arbitrary: s)
  case Nil
  then show ?case by simp
next
  case (Cons m ms)
  from Cons.prems obtain s1 where s1: "add_member_vote d v m s = Inr s1"
    "add_member_vote_category d ms v s1 = Inr s'"
    by (auto simp: and_then_eq_Inr)
  from Cons.IH [OF s1(2)] obtain ls where "printed s' = printed s1 @ ls" ..
  with printed_step [OF s1(1)] show ?case by simp
qed

lemma category_reports_duplicate:
  assumes "add_member_vote_category d ms v s = Inr s'"
      and "stored_vote s mid d = Some old" "mid \<in> MemberId ` set ms"
  shows "\<exists>ls. printed s' = printed s @ ls \<and> Duplicate mid d v old \<in> set ls"
  using assms
proof (induction ms arbitrary: s)
  case Nil
  then show ?case by simp
next
  case (Cons m ms)
  from Cons.prems(1) obtain s1 where s1: "add_member_vote d v m s = Inr s1"
    "add_member_vote_category d ms v s1 = Inr s'"
    by (auto simp: and_then_eq_Inr)
  note p1 = printed_step [OF s1(1)]
  show ?case
  proof (cases "MemberId m = mid")
    case True
    with p1 Cons.prems(2) have "printed s1 = printed s @ [Duplicate mid d v old]" by simp
    moreover from category_printed [OF s1(2)] obtain ls where "printed s' = printed s1 @ ls" ..
    ultimately show ?thesis by simp
  next
    case False
    with Cons.prems(3) have "mid \<in> MemberId ` set ms" by auto
    moreover have "stored_vote s1 mid d = Some old"
      using stored_vote_step [OF s1(1), of mid d] Cons.prems(2) by simp
    ultimately obtain ls where "printed s' = printed s1 @ ls" "Duplicate mid d v old \<in> set ls"
      using Cons.IH [OF s1(2)] by blast
    with p1 show ?thesis by (auto split: option.splits)
  qed
qed

lemma add_categories_append:
  "add_categories d (xs @ ys) s = and_then (add_categories d xs s) (add_categories d ys)"
proof (induction xs arbitrary: s)
  case Nil
  then show ?case by simp
next
  case (Cons c xs)
  obtain ms v where c: "c = (ms, v)" by (cases c)
  show ?case
    by (cases "add_member_vote_category d ms v s") (simp_all add: c Cons.IH)
qed

lemma categories_printed:
  assumes "add_categories d cs s = Inr s'"
  shows "\<exists>ls. printed s' = printed s @ ls"
  using assms
proof (induction cs arbitrary: s)
  case Nil
  then show ?case by simp
next
  case (Cons c cs)
  obtain ms v where c: "c = (ms, v)" by (cases c)
  from Cons.prems c obtain s1 where s1: "add_member_vote_category d ms v s = Inr s1"
    "add_categories d cs s1 = Inr s'"
    by (auto simp: and_then_eq_Inr)
  from category_printed [OF s1(1)] Cons.IH [OF s1(2)] show ?case by auto
qed

lemma categories_stored_vote:
  assumes "add_categories d cs s = Inr s'"
  shows "stored_vote s' mid d =
         (case stored_vote s mid d of
            Some old \<Rightarrow> Some old
          | None \<Rightarrow> map_option snd (find (\<lambda>(ms, v). mid \<in> MemberId ` set ms) cs))"
  using assms
proof (induction cs arbitrary: s)
  case Nil
  then show ?case by (simp split: option.splits)
next
  case (Cons c cs)
  obtain ms v where c: "c = (ms, v)" by (cases c)
  from Cons.prems c obtain s1 where s1: "add_member_vote_category d ms v s = Inr s1"
    "add_categories d cs s1 = Inr s'"
    by (auto simp: and_then_eq_Inr)
  show ?case
    using Cons.IH [OF s1(2)] category_stored_vote [OF s1(1), of mid]
    by (auto simp: c split: option.splits if_splits)
qed

lemma find_first:
  assumes "\<forall>y \<in> set before. \<not> P y" "P x"
  shows "find P (before @ x # rest) = Some x"
  using assms by (induction before) auto

lemma categories_first_wins:
  assumes run: "add_categories d cs s = Inr s'"
      and fresh: "stored_vote s mid d = None"
      and cs: "cs = before @ (ms1, v1) # between @ (ms2, v2) # after"
      and before: "\<forall>(ms, v) \<in> set before. mid \<notin> MemberId ` set ms"
      and in1: "mid \<in> MemberId ` set ms1" and in2: "mid \<in> MemberId ` set ms2"
  shows "stored_vote s' mid d = Some v1
       \<and> (\<exists>ls. printed s' = printed s @ ls \<and> Duplicate mid d v2 v1 \<in> set ls)"
proof -
  let ?P = "\<lambda>(ms, v). mid \<in> MemberId ` set ms"
  let ?front = "before @ (ms1, v1) # between"
  have first: "\<And>rest. find ?P (before @ (ms1, v1) # rest) = Some (ms1, v1)"
    using before in1 by (intro find_first) auto
  have stored: "stored_vote s' mid d = Some v1"
    using categories_stored_vote [OF run, of mid] fresh first by (simp add: cs)
  have run2: "add_categories d (?front @ ((ms2, v2) # after)) s = Inr s'"
    using run by (simp add: cs)
  have "add_categories d (?front @ ((ms2, v2) # after)) s
        = and_then (add_categories d ?front s) (add_categories d ((ms2, v2) # after))"
    by (rule add_categories_append)
  with run2 obtain sa where sa: "add_categories d ?front s = Inr sa"
    and rest: "add_categories d ((ms2, v2) # after) sa = Inr s'"
    by (metis and_then_eq_Inr)
  from rest obtain sb where sb: "add_member_vote_category d ms2 v2 sa = Inr sb"
    and s': "add_categories d after sb = Inr s'"
    by (auto simp: and_then_eq_Inr)
  have "stored_vote sa mid d = Some v1"
    using categories_stored_vote [OF sa, of mid] fresh first by simp
  with sb obtain l2 where l2: "printed sb = printed sa @ l2" "Duplicate mid d v2 v1 \<in> set l2"
    using category_reports_duplicate in2 by blast
  from categories_printed [OF sa] obtain l1 where "printed sa = printed s @ l1" ..
  moreover from categories_printed [OF s'] obtain l3 where "printed s' = printed sb @ l3" ..
  ultimately have "printed s' = printed s @ (l1 @ l2 @ l3)" using l2(1) by simp
  moreover have "Duplicate mid d v2 v1 \<in> set (l1 @ l2 @ l3)" using l2(2) by simp
  ultimately show ?thesis using stored by blast
qed

text \<open>
  C5, as stated, fails in two ways. In the document served under the number 725 the entity 7
  is in the affirmative and in the negative category, and an entity without a name stands
  in the category between them: the second call raises, the negative category is never
  applied and no conflict is printed. The documents served under 723 and 724 carry the same
  event id, and in the second the entity 7 is in the negative and in the negative tellers'
  category: the outcome stored from the first document stays, and it is not the code of the
  first category of the second document.
\<close>

theorem first_category_counterexample:
  "MemberId mp_jo = 7
   \<and> Ayes division_106 = [mp_jo] \<and> Noes division_106 = [mp_jo]
   \<and> outside_range (Date division_106) DATE_START DATE_END = Inr False
   \<and> stored_vote (read_division_list fetch_more DATE_START DATE_END [725] init) 7 106 = Some Aye
   \<and> printed (read_division_list fetch_more DATE_START DATE_END [725] init)
       = [Progress 725, ErrorLine 725 IndexError]
   \<and> Ayes division_100_split = [] \<and> AyeTellers division_100_split = []
   \<and> Noes division_100_split = [mp_jo] \<and> NoTellers division_100_split = [mp_jo]
   \<and> outside_range (Date division_100_split) DATE_START DATE_END = Inr False
   \<and> stored_vote (read_division_list fetch_more DATE_START DATE_END [723, 724] init) 7 100 = Some Aye
   \<and> printed (read_division_list fetch_more DATE_START DATE_END [723, 724] init)
       = [Progress 723, Progress 724, Duplicate 7 100 No Aye, Duplicate 7 100 NoTeller Aye]"
  by (simp add: example_defs more_example_defs run_defs stored_vote_def)

text \<open>
  C5, amended. The aggregation of a division applies its five categories in the order
  affirmative, affirmative tellers, negative, negative tellers, not recorded, with the codes
  Aye, AyeTeller, No, NoTeller and Missing. For an admitted event and an entity that held no
  vote under the event's id before: whenever the processing of the event returns, and the
  entity is in two categories, the code of the first category of the order that contains it
  is the stored outcome, and a duplicate line with the code of the later category and the
  stored code is printed; and the processing returns whenever every entity of the event has
  a name with a character that is not whitespace.
\<close>

theorem first_category_wins:
  assumes "outside_range (Date dto) date_start date_end = Inr False"
      and "stored_vote self mp_id (DivisionId dto) = None"
      and "category_order dto = before @ (mems1, vote1) # between @ (mems2, vote2) # after"
      and "\<forall>(mems, vote) \<in> set before. mp_id \<notin> MemberId ` set mems"
      and "mp_id \<in> MemberId ` set mems1"
      and "mp_id \<in> MemberId ` set mems2"
  shows "aggregate_votes dto =
           add_categories (DivisionId dto)
             [(Ayes dto, Aye), (AyeTellers dto, AyeTeller), (Noes dto, No),
              (NoTellers dto, NoTeller), (NoVoteRecorded dto, Missing)]
       \<and> (\<forall>self'. try_division date_start date_end (Inr dto) self = Inr self' \<longrightarrow>
             stored_vote self' mp_id (DivisionId dto) = Some vote1
             \<and> Duplicate mp_id (DivisionId dto) vote2 vote1 \<in> set (new_lines self self'))
       \<and> ((\<forall>(mems, vote) \<in> set (category_order dto).
              \<forall>m \<in> set mems. \<exists>c \<in> set (Name m). \<not> isspace c) \<longrightarrow>
            (\<exists>self'. try_division date_start date_end (Inr dto) self = Inr self'))"
proof (intro conjI allI impI)
  show "aggregate_votes dto =
           add_categories (DivisionId dto)
             [(Ayes dto, Aye), (AyeTellers dto, AyeTeller), (Noes dto, No),
              (NoTellers dto, NoTeller), (NoVoteRecorded dto, Missing)]"
    by (rule ext) (simp add: aggregate_votes_order category_order_def)
next
  let ?s1 = "self\<lparr>divisions := AList.update (DivisionId dto)
      \<lparr>division_id = DivisionId dto, date = Date dto, bill_name = Title dto\<rparr> (divisions self)\<rparr>"
  fix self'
  assume ret: "try_division date_start date_end (Inr dto) self = Inr self'"
  with assms(1) have "aggregate_votes dto ?s1 = Inr self'"
    by (simp add: try_division_def)
  then have run: "add_categories (DivisionId dto) (category_order dto) ?s1 = Inr self'"
    by (simp add: aggregate_votes_order)
  have fresh: "stored_vote ?s1 mp_id (DivisionId dto) = None"
    using assms(2) by (simp add: stored_vote_def)
  from categories_first_wins [OF run fresh assms(3,4,5,6)]
  obtain ls where res: "stored_vote self' mp_id (DivisionId dto) = Some vote1"
    "printed self' = printed ?s1 @ ls" "Duplicate mp_id (DivisionId dto) vote2 vote1 \<in> set ls"
    by blast
  from res(1) show "stored_vote self' mp_id (DivisionId dto) = Some vote1" .
  from res(2,3) show "Duplicate mp_id (DivisionId dto) vote2 vote1 \<in> set (new_lines self self')"
    by (simp add: new_lines_def)
next
  let ?s1 = "self\<lparr>divisions := AList.update (DivisionId dto)
      \<lparr>division_id = DivisionId dto, date = Date dto, bill_name = Title dto\<rparr> (divisions self)\<rparr>"
  assume "\<forall>(mems, vote) \<in> set (category_order dto).
              \<forall>m \<in> set mems. \<exists>c \<in> set (Name m). \<not> isspace c"
  then have "\<forall>(mems, vote) \<in> set (category_order dto).
              \<forall>m \<in> set mems. split_maxsplit1 (Name m) \<noteq> []"
    by (simp add: split_maxsplit1_Nil_iff)
  then obtain self' where "add_categories (DivisionId dto) (category_order dto) ?s1 = Inr self'"
    using categories_return by blast
  with assms(1) have "try_division date_start date_end (Inr dto) self = Inr self'"
    by (simp add: try_division_def aggregate_votes_order)
  then show "\<exists>self'. try_division date_start date_end (Inr dto) self = Inr self'" ..
qed

theorem first_category_wins_witness:
  "outside_range (Date division_103) DATE_START DATE_END = Inr False
   \<and> try_division DATE_START DATE_END (Inr division_103) init
       = Inr (state_of (try_division DATE_START DATE_END (Inr division_103) init))
   \<and> stored_vote init 7 103 = None
   \<and> category_order division_103
       = [] @ ([mp_jo], Aye) # [([], AyeTeller)] @ ([mp_jo], No) # [([], NoTeller), ([], Missing)]
   \<and> stored_vote (state_of (try_division DATE_START DATE_END (Inr division_103) init)) 7 103
       = Some Aye
   \<and> Duplicate 7 103 No Aye
       \<in> set (new_lines init (state_of (try_division DATE_START DATE_END (Inr division_103) init)))"
proof -
  have h1: "outside_range (Date division_103) DATE_START DATE_END = Inr False"
    by (simp add: example_defs run_defs)
  have id: "DivisionId division_103 = 103" "MemberId mp_jo = 7"
    by (simp_all add: division_103_def mp_jo_def)
  have h3: "stored_vote init 7 (DivisionId division_103) = None"
    by (simp add: stored_vote_def init_def)
  have h4: "category_order division_103
       = [] @ ([mp_jo], Aye) # [([], AyeTeller)] @ ([mp_jo], No) # [([], NoTeller), ([], Missing)]"
    by (simp add: category_order_def division_103_def)
  have h5: "\<forall>(mems, vote) \<in> set []. (7::int) \<notin> MemberId ` set mems" by simp
  have h6: "7 \<in> MemberId ` set [mp_jo]" by (simp add: id)
  have j: "\<not> isspace (CHR ''J'')" "CHR ''J'' \<in> set (Name mp_jo)"
    by (simp_all add: isspace_def mp_jo_def)
  then have "\<exists>c \<in> set (Name mp_jo). \<not> isspace c" by blast
  then have names: "\<forall>(mems, vote) \<in> set (category_order division_103).
              \<forall>m \<in> set mems. \<exists>c \<in> set (Name m). \<not> isspace c"
    unfolding h4 by simp
  from first_category_wins [OF h1 h3 h4 h5 h6 h6] names
  obtain self' where "try_division DATE_START DATE_END (Inr division_103) init = Inr self'"
    by blast
  then have h2: "try_division DATE_START DATE_END (Inr division_103) init
       = Inr (state_of (try_division DATE_START DATE_END (Inr division_103) init))"
    by simp
  have "stored_vote (state_of (try_division DATE_START DATE_END (Inr division_103) init)) 7
          (DivisionId division_103) = Some Aye
        \<and> Duplicate 7 (DivisionId division_103) No Aye
          \<in> set (new_lines init (state_of (try_division DATE_START DATE_END (Inr division_103) init)))"
    using first_category_wins [OF h1 h3 h4 h5 h6 h6] h2 by blast
  with h1 h2 h3 h4 show ?thesis by (simp add: id)
qed

subsection \<open>The matrix file\<close>

lemma collect_map:
  assumes "\<And>x. x \<in> set xs \<Longrightarrow> f x = Inr (g x)"
  shows "collect f xs = Inr (map g xs)"
  using assms by (induction xs) simp_all

lemma map_of_key: "k \<in> set (map fst al) \<Longrightarrow> \<exists>v. map_of al k = Some v"
  by (cases "map_of al k") (auto simp: map_of_eq_None_iff)

lemma cells_of_row:
  "collect (vote_cell mems division) (sort (map fst mems)) =
   Inr (map (\<lambda>mp_id. str_int (vote_int
               (case map_of (division_votes (the (map_of mems mp_id))) (division_id division) of
                  None \<Rightarrow> Missing | Some vote \<Rightarrow> vote)))
          (sort (map fst mems)))"
proof (rule collect_map)
  fix mp_id
  assume "mp_id \<in> set (sort (map fst mems))"
  then obtain m where "map_of mems mp_id = Some m" using map_of_key [of mp_id mems] by auto
  then show "vote_cell mems division mp_id =
         Inr (str_int (vote_int
               (case map_of (division_votes (the (map_of mems mp_id))) (division_id division) of
                  None \<Rightarrow> Missing | Some vote \<Rightarrow> vote)))"
    by (simp add: vote_cell_def)
qed

lemma write_dat_file_rows:
  "write_dat_file strftime divs mems =
   Inr (([''rowid'', ''date'', ''voteno'', ''Bill'']
          @ map (\<lambda>mp_id. ''mpid'' @ str_int mp_id) (sort (map fst mems)))
        # map (\<lambda>k. [str_int (division_id (the (map_of divs k))),
                       strftime (date (the (map_of divs k))),
                       str_int (division_id (the (map_of divs k))),
                       bill_name (the (map_of divs k))]
                      @ map (\<lambda>mp_id. str_int (vote_int
                               (case map_of (division_votes (the (map_of mems mp_id)))
                                       (division_id (the (map_of divs k))) of
                                  None \<Rightarrow> Missing | Some vote \<Rightarrow> vote)))
                          (sort (map fst mems)))
            (sort (map fst divs)))"
  (is "_ = Inr (?header # map ?row _)")
proof -
  have "collect (dat_row strftime divs mems (sort (map fst mems))) (sort (map fst divs))
        = Inr (map ?row (sort (map fst divs)))"
  proof (rule collect_map)
    fix k
    assume "k \<in> set (sort (map fst divs))"
    then obtain division where "map_of divs k = Some division"
      using map_of_key [of k divs] by auto
    then show "dat_row strftime divs mems (sort (map fst mems)) k = Inr (?row k)"
      by (simp add: dat_row_def cells_of_row)
  qed
  then show ?thesis by (simp add: write_dat_file_def Let_def)
qed



subsection \<open>The order of rows and columns\<close>

lemma sort_mset_eq:
  fixes xs ys :: "int list"
  assumes "mset xs = mset ys"
  shows "sort xs = sort ys"
  using assms by (metis mset_sort properties_for_sort sorted_sort)

lemma map_of_mset_eq:
  assumes "mset xs = mset ys" "distinct (map fst ys)"
  shows "map_of xs = map_of ys"
proof -
  from assms(1) have "mset (map fst xs) = mset (map fst ys)" by simp
  with assms(2) have "distinct (map fst xs)" by (metis mset_eq_imp_distinct_iff)
  moreover from assms(1) have "set xs = set ys" by (rule mset_eq_setD)
  ultimately show ?thesis using assms(2) by (simp add: map_of_inject_set)
qed

text \<open>The registries that the processor builds have distinct keys, and every event is stored
  under its own id.\<close>

lemma keyed_update:
  assumes "\<forall>(k, x) \<in> set al. f x = k" "f v = k0"
  shows "\<forall>(k, x) \<in> set (AList.update k0 v al). f x = k"
  using assms by (induction al) auto

lemma registries_keyed_step:
  assumes "(\<forall>(k, division) \<in> set (divisions s). division_id division = k)
           \<and> distinct (map fst (divisions s)) \<and> distinct (map fst (members s))"
      and "add_member_vote d v m s = Inr s'"
  shows "(\<forall>(k, division) \<in> set (divisions s'). division_id division = k)
           \<and> distinct (map fst (divisions s')) \<and> distinct (map fst (members s'))"
  using assms
  by (cases rule: add_member_vote_cases [of s m d v])
     (auto simp: print_def distinct_update)

lemma registries_keyed_try_division:
  assumes "(\<forall>(k, division) \<in> set (divisions s). division_id division = k)
           \<and> distinct (map fst (divisions s)) \<and> distinct (map fst (members s))"
  shows "(\<forall>(k, division) \<in> set (divisions (state_of (try_division ds de fetched s))).
            division_id division = k)
         \<and> distinct (map fst (divisions (state_of (try_division ds de fetched s))))
         \<and> distinct (map fst (members (state_of (try_division ds de fetched s))))"
proof (cases fetched)
  case (Inl e)
  with assms show ?thesis by (simp add: try_division_def)
next
  case (Inr dto)
  let ?s1 = "s\<lparr>divisions := AList.update (DivisionId dto)
      \<lparr>division_id = DivisionId dto, date = Date dto, bill_name = Title dto\<rparr> (divisions s)\<rparr>"
  let ?P = "\<lambda>s. (\<forall>(k, division) \<in> set (divisions s). division_id division = k)
           \<and> distinct (map fst (divisions s)) \<and> distinct (map fst (members s))"
  have "\<forall>(k, division) \<in> set (AList.update (DivisionId dto)
      \<lparr>division_id = DivisionId dto, date = Date dto, bill_name = Title dto\<rparr> (divisions s)).
        division_id division = k"
    by (rule keyed_update [where f = division_id]) (use assms in simp_all)
  then have "\<forall>(k, division) \<in> set (divisions ?s1). division_id division = k"
    by simp
  with assms have "?P ?s1" by (simp add: distinct_update)
  then have "?P (state_of (aggregate_votes dto ?s1))"
    by (rule aggregate_invariant [where P = ?P, rotated]) (rule registries_keyed_step)
  with Inr assms show ?thesis
    by (auto simp: try_division_def split: sum.splits bool.splits)
qed

lemma registries_keyed_read_divisions:
  "(\<forall>(k, division) \<in> set (divisions (read_divisions fetch init)). division_id division = k)
   \<and> distinct (map fst (divisions (read_divisions fetch init)))
   \<and> distinct (map fst (members (read_divisions fetch init)))"
  by (rule read_divisions_invariant [where P = "\<lambda>s. (\<forall>(k, division) \<in> set (divisions s). division_id division = k)
           \<and> distinct (map fst (divisions s)) \<and> distinct (map fst (members s))"])
     (simp_all add: registries_keyed_try_division print_def init_def)

text \<open>
  C9. For registries with distinct keys in which every event is stored under its own id, as
  the processor builds them: the first fields of the data rows are the event ids in
  ascending order, the header columns after the first four are the entity ids in ascending
  order behind the prefix \<open>mpid\<close>, and registries with the same entries in any other
  order of insertion give the same file.
\<close>

theorem matrix_order_independent_of_insertion:
  assumes "distinct (map fst divs)" and "distinct (map fst mems)"
      and "\<forall>(k, division) \<in> set divs. division_id division = k"
      and "mset divs' = mset divs" and "mset mems' = mset mems"
  shows "\<exists>header rows. write_dat_file strftime divs mems = Inr (header # rows)
           \<and> map (\<lambda>row. row ! 0) rows = map str_int (sort (map fst divs))
           \<and> sorted (sort (map fst divs))
           \<and> drop 4 header = map (\<lambda>mp_id. ''mpid'' @ str_int mp_id) (sort (map fst mems))
           \<and> sorted (sort (map fst mems))
           \<and> write_dat_file strftime divs' mems' = write_dat_file strftime divs mems"
proof -
  have ids: "division_id (the (map_of divs k)) = k" if "k \<in> set (sort (map fst divs))" for k
  proof -
    from that obtain division where d: "map_of divs k = Some division"
      using map_of_key [of k divs] by auto
    then have "(k, division) \<in> set divs" by (rule map_of_SomeD)
    with assms(3) d show ?thesis by auto
  qed
  have same: "sort (map fst divs') = sort (map fst divs)" "sort (map fst mems') = sort (map fst mems)"
    "map_of divs' = map_of divs" "map_of mems' = map_of mems"
    using assms by (auto intro!: sort_mset_eq map_of_mset_eq)
  have "write_dat_file strftime divs' mems' = write_dat_file strftime divs mems"
    by (simp only: write_dat_file_rows same)
  then show ?thesis
    by (simp add: write_dat_file_rows ids)
qed

theorem matrix_order_independent_of_insertion_witness:
  "distinct (map fst example_divisions) \<and> distinct (map fst example_members)
   \<and> map (\<lambda>(k, division). division_id division) example_divisions = map fst example_divisions
   \<and> mset (rev example_divisions) = mset example_divisions
   \<and> mset (rev example_members) = mset example_members
   \<and> map fst example_divisions = [20, 10] \<and> map fst example_members = [3, 1, 2]
   \<and> write_dat_file example_strftime example_divisions example_members =
       Inr [[''rowid'', ''date'', ''voteno'', ''Bill'', ''mpid1'', ''mpid2'', ''mpid3''],
            [''10'', ''737500'', ''10'', ''First Bill'', ''1'', ''-9'', ''-9''],
            [''20'', ''737501'', ''20'', ''Second Bill'', ''4'', ''-9'', ''2'']]
   \<and> write_dat_file example_strftime (rev example_divisions) (rev example_members) =
       write_dat_file example_strftime example_divisions example_members"
proof -
  have h1: "distinct (map fst example_divisions)" and h2: "distinct (map fst example_members)"
    and h3: "\<forall>(k, division) \<in> set example_divisions. division_id division = k"
    by (simp_all add: example_divisions_def example_members_def)
  have h4: "mset (rev example_divisions) = mset example_divisions"
    and h5: "mset (rev example_members) = mset example_members"
    by simp_all
  have keys: "map fst example_divisions = [20, 10]" "map fst example_members = [3, 1, 2]"
    "map (\<lambda>(k, division). division_id division) example_divisions = map fst example_divisions"
    by (simp_all add: example_divisions_def example_members_def)
  have written: "write_dat_file example_strftime example_divisions example_members =
       Inr [[''rowid'', ''date'', ''voteno'', ''Bill'', ''mpid1'', ''mpid2'', ''mpid3''],
            [''10'', ''737500'', ''10'', ''First Bill'', ''1'', ''-9'', ''-9''],
            [''20'', ''737501'', ''20'', ''Second Bill'', ''4'', ''-9'', ''2'']]"
    by (simp add: write_dat_file_def dat_row_def vote_cell_def example_divisions_def
          example_members_def example_strftime_def afternoon_def str_int_def Let_def)
  from matrix_order_independent_of_insertion [OF h1 h2 h3 h4 h5, of example_strftime]
  have "write_dat_file example_strftime (rev example_divisions) (rev example_members) =
       write_dat_file example_strftime example_divisions example_members"
    by blast
  with h1 h2 h4 h5 keys written show ?thesis by blast
qed

end
